theory Spec2Isabelle
  imports Complex_Main
begin

section \<open>Data model of the transcription pipeline (src/app.py)\<close>

text \<open>
  The program passes Python dictionaries around. A dictionary whose keys the code reads
  with \<^verbatim>\<open>.get(key, default)\<close> or tests with \<^verbatim>\<open>in\<close> has optional fields here; a key
  the code reads with \<^verbatim>\<open>d[key]\<close> is a plain field: the transcription service's schema
  provides it. Timestamps and durations are Python floats; they are modelled as exact
  reals, so the rounding of IEEE doubles is outside this development.

  A word stamp is a dictionary \<^verbatim>\<open>{"word", "start", "end"}\<close>. The merge updates word stamps in
  place, through a list that the copied segment shares with the caller's segment, so word
  stamps live in a store and a segment holds their addresses.
\<close>

type_synonym addr = nat

record word_stamp =
  w_word :: string
  w_start :: real
  w_end :: real

type_synonym store = "addr \<Rightarrow> word_stamp"

record segment =
  seg_id :: "int option"
  seg_start :: real
  seg_end :: real
  seg_text :: string
  seg_words :: "addr list option"

record transcript =
  t_task :: "string option"
  t_language :: "string option"
  t_duration :: "real option"
  t_text :: "string option"
  t_segments :: "segment list option"

datatype error =
  IndexError | KeyError | ValueError | ZeroDivisionError | AttributeError | ExternalError

text \<open>The empty dictionary \<^verbatim>\<open>{}\<close>.\<close>

definition empty_dict :: transcript where
  "empty_dict = \<lparr>t_task = None, t_language = None, t_duration = None, t_text = None,
     t_segments = None\<rparr>"

text \<open>\<^verbatim>\<open>transcript.get("segments", [])\<close> and \<^verbatim>\<open>transcript.get("text", "")\<close>.\<close>

definition get_segments :: "transcript \<Rightarrow> segment list" where
  "get_segments t = (case t_segments t of None \<Rightarrow> [] | Some ss \<Rightarrow> ss)"

definition get_text :: "transcript \<Rightarrow> string" where
  "get_text t = (case t_text t of None \<Rightarrow> [] | Some s \<Rightarrow> s)"

section \<open>merge_transcript_segments\<close>

text \<open>
  The local variables of the merge that its loops update: the store of word stamps, the
  text and the segment list of \<^verbatim>\<open>merged\<close>, \<^verbatim>\<open>segment_id\<close> and \<^verbatim>\<open>current_offset\<close>.
\<close>

record merge_state =
  heap :: store
  merged_text :: string
  merged_segments :: "segment list"
  segment_id :: nat
  current_offset :: real

text \<open>
  \<^verbatim>\<open>for word in new_segment["words"]: word["start"] += current_offset; word["end"] += current_offset\<close>:
  each word dictionary is updated where it lives.
\<close>

fun adjust_words :: "real \<Rightarrow> addr list \<Rightarrow> store \<Rightarrow> store" where
  "adjust_words off [] h = h"
| "adjust_words off (a # as) h =
     adjust_words off as
       (h(a := (h a)\<lparr>w_start := w_start (h a) + off, w_end := w_end (h a) + off\<rparr>))"

text \<open>
  The body of the loop over the segments of one chunk. \<^verbatim>\<open>segment.copy()\<close> is a shallow copy:
  the new dictionary has its own \<^verbatim>\<open>id\<close>, \<^verbatim>\<open>start\<close> and \<^verbatim>\<open>end\<close>, and the same list of words.
\<close>

definition adjust_segment :: "segment \<Rightarrow> merge_state \<Rightarrow> merge_state" where
  "adjust_segment segment st =
     (let new_segment = segment\<lparr>seg_id := Some (int (segment_id st)),
                                 seg_start := seg_start segment + current_offset st,
                                 seg_end := seg_end segment + current_offset st\<rparr>;
          h = (case seg_words new_segment of
                 None \<Rightarrow> heap st
               | Some ws \<Rightarrow> adjust_words (current_offset st) ws (heap st))
      in st\<lparr>heap := h,
            merged_segments := merged_segments st @ [new_segment],
            segment_id := segment_id st + 1\<rparr>)"

text \<open>
  The loop \<^verbatim>\<open>for i, transcript in enumerate(transcript_segments)\<close>. Reading
  \<^verbatim>\<open>segment_lengths[i]\<close> past the end of the list raises IndexError; the word stamps updated
  before that stay updated.
\<close>

fun merge_loop :: "nat \<Rightarrow> transcript list \<Rightarrow> real list \<Rightarrow> merge_state
    \<Rightarrow> error option \<times> merge_state" where
  "merge_loop i [] segment_lengths st = (None, st)"
| "merge_loop i (transcript # rest) segment_lengths st =
     (let st1 = st\<lparr>merged_text := merged_text st @ get_text transcript @ '' ''\<rparr>;
          st2 = fold adjust_segment (get_segments transcript) st1
      in if i < length segment_lengths
         then merge_loop (Suc i) rest segment_lengths
                (st2\<lparr>current_offset := current_offset st2 + segment_lengths ! i\<rparr>)
         else (Some IndexError, st2))"

definition merge_transcript_segments ::
    "store \<Rightarrow> transcript list \<Rightarrow> real list \<Rightarrow> store \<times> (error + transcript)" where
  "merge_transcript_segments h transcript_segments segment_lengths =
     (if transcript_segments = [] then (h, Inr empty_dict)
      else if length transcript_segments = 1 then (h, Inr (transcript_segments ! 0))
      else
        (case merge_loop 0 transcript_segments segment_lengths
                \<lparr>heap = h, merged_text = [], merged_segments = [], segment_id = 0,
                 current_offset = 0\<rparr> of
           (Some e, st) \<Rightarrow> (heap st, Inl e)
         | (None, st) \<Rightarrow>
             (heap st,
              Inr \<lparr>t_task = Some (case t_task (transcript_segments ! 0) of
                                     None \<Rightarrow> ''transcribe'' | Some v \<Rightarrow> v),
                   t_language = Some (case t_language (transcript_segments ! 0) of
                                     None \<Rightarrow> ''english'' | Some v \<Rightarrow> v),
                   t_duration = Some (sum_list segment_lengths),
                   t_text = Some (merged_text st),
                   t_segments = Some (merged_segments st)\<rparr>)))"

section \<open>split_audio and transcribe_video\<close>

text \<open>
  The module constant \<^verbatim>\<open>DEMO_MODE\<close> is true when no API key is set; the three pipeline
  functions then return or copy fixed mock data before any of the code below runs. The
  definitions here are the branches taken when a key is set.

  \<^verbatim>\<open>VideoFileClip(input_file)\<close> either raises (\<open>None\<close>) or gives a clip with a duration, a
  frame size and an audio track; \<^verbatim>\<open>video.audio\<close> is \<^verbatim>\<open>None\<close> for a file without audio.
\<close>

record video =
  duration :: real
  clip_w :: nat
  clip_h :: nat
  has_audio :: bool

text \<open>
  The audio files that \<^verbatim>\<open>split_audio\<close> writes: \<^verbatim>\<open>temp_audio_full.mp3\<close> holds the whole audio,
  \<^verbatim>\<open>temp_audio_segment_{i}.mp3\<close> the audio of \<^verbatim>\<open>video.subclip(start_time, end_time)\<close>.
\<close>

datatype audio_file = Temp_audio_full | Temp_audio_segment nat real real

text \<open>
  The loop of lines 63-71 over the windows. \<^verbatim>\<open>segment.audio.write_audiofile(temp_file)\<close> raises
  AttributeError when the video has no audio, and the write itself may fail; whether the
  library writes a file is the parameter \<open>write_audiofile\<close>.
\<close>

fun write_segments :: "(audio_file \<Rightarrow> bool) \<Rightarrow> video \<Rightarrow> audio_file list \<Rightarrow> audio_file list
    \<Rightarrow> error + audio_file list" where
  "write_segments write_audiofile video [] temp_files = Inr temp_files"
| "write_segments write_audiofile video (segment # rest) temp_files =
     (if \<not> has_audio video then Inl AttributeError
      else if \<not> write_audiofile segment then Inl ExternalError
      else write_segments write_audiofile video rest (temp_files @ [segment]))"

text \<open>
  The \<^verbatim>\<open>try\<close> block of \<^verbatim>\<open>split_audio\<close> (lines 46-73), with every exception it can raise: the
  file cannot be opened, the video has no audio, a write fails, or \<^verbatim>\<open>segment_length\<close> is zero
  in \<^verbatim>\<open>duration / segment_length\<close>. \<^verbatim>\<open>int(np.ceil(duration / segment_length))\<close> is the ceiling of
  the quotient and \<^verbatim>\<open>range(n)\<close> is empty for \<open>n \<le> 0\<close>.
\<close>

definition split_audio_body ::
    "(audio_file \<Rightarrow> bool) \<Rightarrow> video option \<Rightarrow> int \<Rightarrow> error + audio_file list" where
  "split_audio_body write_audiofile input_file segment_length =
     (case input_file of
        None \<Rightarrow> Inl ExternalError
      | Some video \<Rightarrow>
          if duration video \<le> of_int segment_length then
            (if \<not> has_audio video then Inl AttributeError
             else if \<not> write_audiofile Temp_audio_full then Inl ExternalError
             else Inr [Temp_audio_full])
          else if segment_length = 0 then Inl ZeroDivisionError
          else write_segments write_audiofile video
                 (map (\<lambda>i. Temp_audio_segment i
                          (of_int (int i * segment_length))
                          (min (of_int ((int i + 1) * segment_length)) (duration video)))
                    [0..<nat \<lceil>duration video / of_int segment_length\<rceil>])
                 [])"

text \<open>
  \<^verbatim>\<open>split_audio\<close> (lines 31-77): the block above inside \<^verbatim>\<open>except Exception: ... return []\<close>. The
  function raises nothing; every exception becomes the empty list.
\<close>

definition split_audio :: "(audio_file \<Rightarrow> bool) \<Rightarrow> video option \<Rightarrow> int \<Rightarrow> audio_file list" where
  "split_audio write_audiofile input_file segment_length =
     (case split_audio_body write_audiofile input_file segment_length of
        Inl e \<Rightarrow> []
      | Inr temp_files \<Rightarrow> temp_files)"

text \<open>
  The transcription service is a function from the audio file sent to the transcript
  returned, \<open>None\<close> when the call raises. The loop of lines 219-244 keeps the transcripts of
  the calls that succeed, in order, and nothing for a call that fails.
\<close>

fun transcribe_loop :: "(audio_file \<Rightarrow> transcript option) \<Rightarrow> audio_file list \<Rightarrow> transcript list
    \<Rightarrow> transcript list" where
  "transcribe_loop client [] transcript_segments = transcript_segments"
| "transcribe_loop client (audio_file # rest) transcript_segments =
     (case client audio_file of
        Some transcript \<Rightarrow> transcribe_loop client rest (transcript_segments @ [transcript])
      | None \<Rightarrow> transcribe_loop client rest transcript_segments)"

text \<open>
  \<^verbatim>\<open>transcribe_video\<close> (lines 200-257): one duration per audio file of \<^verbatim>\<open>split_audio\<close>, then the
  merge of the transcripts that were returned with the list of all these durations. An
  exception of the merge is caught by the outer \<^verbatim>\<open>except\<close>, which returns \<^verbatim>\<open>None\<close>.
\<close>

definition transcribe_video ::
    "store \<Rightarrow> (audio_file \<Rightarrow> bool) \<Rightarrow> video option \<Rightarrow> (audio_file \<Rightarrow> transcript option)
      \<Rightarrow> store \<times> transcript option" where
  "transcribe_video h write_audiofile input_file client =
     (let audio_segments = split_audio write_audiofile input_file (15 * 60) in
      if audio_segments = [] then (h, None)
      else
        (case input_file of
           None \<Rightarrow> (h, None)
         | Some video \<Rightarrow>
             (let total_duration = duration video;
                  segment_length = 15 * 60;
                  segment_durations =
                    map (\<lambda>i. min (real ((i + 1) * segment_length)) total_duration
                               - real (i * segment_length))
                      [0..<length audio_segments];
                  transcript_segments = transcribe_loop client audio_segments []
              in if transcript_segments \<noteq> [] then
                   (case merge_transcript_segments h transcript_segments segment_durations of
                      (h', Inr merged_transcript) \<Rightarrow> (h', Some merged_transcript)
                    | (h', Inl e) \<Rightarrow> (h', None))
                 else (h, None))))"

section \<open>analyze_transcript\<close>

text \<open>
  A highlight candidate as the JSON template of the prompt describes it; \<^verbatim>\<open>timecodes\<close> is a
  JSON array.
\<close>

record clip_analysis =
  animal_facts :: "string list"
  context_and_setup :: string
  emotional_engagement :: string
  follow_up :: string
  educational_entertainment_balance :: string

record clip =
  timecodes :: "real list"
  description :: string
  entertainment_score :: int
  educational_score :: int
  clarity_score :: int
  shareability_score :: int
  length_score :: int
  analysis :: clip_analysis
  text_hook :: string

text \<open>
  What \<^verbatim>\<open>client.chat.completions.create\<close> and \<^verbatim>\<open>json.loads\<close> can give: an exception of the call,
  a response without choices, content that is not JSON, or a JSON object with or without
  the key \<^verbatim>\<open>clips\<close>.
\<close>

datatype json_content = Not_json | Json_object "clip list option"

datatype chat_response = Api_exception | No_choices | Message_content json_content

text \<open>
  \<^verbatim>\<open>analyze_transcript\<close> (lines 291-403). The transcript only enters the prompt that is sent to
  the service; the value returned is \<^verbatim>\<open>viral_clips['clips']\<close> as parsed, and the empty list on
  every failure.
\<close>

definition analyze_transcript :: "transcript \<Rightarrow> chat_response \<Rightarrow> clip list" where
  "analyze_transcript transcription response =
     (case response of
        Api_exception \<Rightarrow> []
      | No_choices \<Rightarrow> []
      | Message_content content \<Rightarrow>
          (case content of
             Not_json \<Rightarrow> []
           | Json_object viral_clips \<Rightarrow>
               (case viral_clips of Some clips \<Rightarrow> clips | None \<Rightarrow> [])))"

text \<open>A candidate whose two timecodes are less than 30 seconds apart.\<close>

definition shorter_than_30 :: "clip \<Rightarrow> bool" where
  "shorter_than_30 c = (case timecodes c of [start, end_time] \<Rightarrow> end_time - start < 30 | _ \<Rightarrow> False)"

section \<open>create_vertical_clips\<close>

text \<open>
  \<^verbatim>\<open>patched_resize\<close> (lines 443-491) on the frame size \<open>(w, h)\<close> of a clip; resampling of the
  pixels is not modelled. \<^verbatim>\<open>int(clip.w * height / clip.h)\<close> truncates a quotient of
  non-negative integers, which is the integer quotient; a zero height or width of the clip
  makes the division raise.
\<close>

definition patched_resize ::
    "nat \<times> nat \<Rightarrow> (nat \<times> nat) option \<Rightarrow> nat option \<Rightarrow> nat option \<Rightarrow> error + nat \<times> nat" where
  "patched_resize clip newsize height width =
     (case height of
        Some hh \<Rightarrow>
          (case width of
             None \<Rightarrow> if snd clip = 0 then Inl ZeroDivisionError
                     else Inr (fst clip * hh div snd clip, hh)
           | Some ww \<Rightarrow> Inr (ww, hh))
      | None \<Rightarrow>
          (case width of
             Some ww \<Rightarrow> if fst clip = 0 then Inl ZeroDivisionError
                        else Inr (ww, snd clip * ww div fst clip)
           | None \<Rightarrow> (case newsize of Some ns \<Rightarrow> Inr ns | None \<Rightarrow> Inr clip)))"

text \<open>
  The library's \<^verbatim>\<open>crop\<close> (moviepy, not code of the repository) called as
  \<^verbatim>\<open>crop(x_center=c, width=W)\<close>: when \<^verbatim>\<open>x_center\<close> is truthy it sets \<^verbatim>\<open>x1, x2 = c - W/2, c + W/2\<close>, then
  \<^verbatim>\<open>x1 = x1 or 0\<close>, \<^verbatim>\<open>x2 = x2 or clip.size[0]\<close>, \<^verbatim>\<open>y1 = 0\<close>, \<^verbatim>\<open>y2 = clip.size[1]\<close>, and each frame becomes
  \<^verbatim>\<open>pic[int(y1):int(y2), int(x1):int(x2)]\<close>. \<^verbatim>\<open>int\<close> truncates towards zero; a slice counts a
  negative bound from the end and clips both bounds to the array.
\<close>

definition py_int :: "real \<Rightarrow> int" where
  "py_int x = (if 0 \<le> x then \<lfloor>x\<rfloor> else \<lceil>x\<rceil>)"

definition py_slice_len :: "nat \<Rightarrow> int \<Rightarrow> int \<Rightarrow> nat" where
  "py_slice_len n a b =
     (let lo = (if a < 0 then max 0 (int n + a) else min a (int n));
          hi = (if b < 0 then max 0 (int n + b) else min b (int n))
      in nat (hi - lo))"

definition crop :: "nat \<times> nat \<Rightarrow> real \<Rightarrow> real \<Rightarrow> nat \<times> nat" where
  "crop clip x_center width =
     (let x1 = (if x_center \<noteq> 0 then x_center - width / 2 else 0);
          x2 = (if x_center \<noteq> 0 then x_center + width / 2 else 0);
          x2 = (if x2 = 0 then real (fst clip) else x2);
          y1 = 0;
          y2 = real (snd clip)
      in (py_slice_len (fst clip) (py_int x1) (py_int x2),
          py_slice_len (snd clip) (py_int y1) (py_int y2)))"

text \<open>
  Lines 504-506: \<^verbatim>\<open>segment.resize(height=1920)\<close>, then
  \<^verbatim>\<open>crop(x_center=vertical_segment.w/2, width=1080)\<close>. Nothing is checked between the two. The
  crop evaluates the first frame of the resized clip, and the resize of a frame (Pillow,
  in \<^verbatim>\<open>new_make_frame\<close>) raises ValueError for a size with a zero side.
\<close>

definition reproject :: "nat \<times> nat \<Rightarrow> error + nat \<times> nat" where
  "reproject segment =
     (case patched_resize segment None (Some 1920) None of
        Inl e \<Rightarrow> Inl e
      | Inr vertical_segment \<Rightarrow>
          if fst vertical_segment = 0 \<or> snd vertical_segment = 0 then Inl ValueError
          else Inr (crop vertical_segment (real (fst vertical_segment) / 2) 1080))"

text \<open>
  A written clip \<^verbatim>\<open>viral_clip_{i}\<close> with the window it was cut from and its frame size. The
  library may fail to cut a window (\<^verbatim>\<open>subclip\<close>) or to encode and write a clip
  (\<^verbatim>\<open>write_videofile\<close>); these two are parameters.
\<close>

record clip_artifact =
  clip_number :: nat
  source_window :: "real \<times> real"
  output_size :: "nat \<times> nat"

record moviepy =
  subclip_ok :: "real \<Rightarrow> real \<Rightarrow> bool"
  write_ok :: "nat \<Rightarrow> bool"

text \<open>
  The body of the loop of lines 498-511 for candidate number \<open>i\<close>. The unpacking
  \<^verbatim>\<open>start, end = clip_info['timecodes']\<close> raises ValueError unless the list has two elements.
\<close>

definition vertical_clip :: "moviepy \<Rightarrow> video \<Rightarrow> nat \<Rightarrow> clip \<Rightarrow> error + clip_artifact" where
  "vertical_clip lib video i clip_info =
     (case timecodes clip_info of
        [start, end_time] \<Rightarrow>
          if \<not> subclip_ok lib start end_time then Inl ExternalError
          else
            (case reproject (clip_w video, clip_h video) of
               Inl e \<Rightarrow> Inl e
             | Inr vertical_segment \<Rightarrow>
                 if write_ok lib i
                 then Inr \<lparr>clip_number = i, source_window = (start, end_time),
                          output_size = vertical_segment\<rparr>
                 else Inl ExternalError)
      | _ \<Rightarrow> Inl ValueError)"

text \<open>
  The loop runs inside one \<^verbatim>\<open>try\<close> (lines 435-519): the first exception leaves the loop, is
  logged and is not raised again. The result is the logged error, if any, and the clips
  written.
\<close>

fun clips_loop :: "moviepy \<Rightarrow> video \<Rightarrow> nat \<Rightarrow> clip list \<Rightarrow> clip_artifact list
    \<Rightarrow> error option \<times> clip_artifact list" where
  "clips_loop lib video i [] written = (None, written)"
| "clips_loop lib video i (clip_info # rest) written =
     (case vertical_clip lib video i clip_info of
        Inl e \<Rightarrow> (Some e, written)
      | Inr artifact \<Rightarrow> clips_loop lib video (Suc i) rest (written @ [artifact]))"

definition create_vertical_clips ::
    "moviepy \<Rightarrow> video option \<Rightarrow> clip list \<Rightarrow> error option \<times> clip_artifact list" where
  "create_vertical_clips lib input_file viral_clips =
     (case input_file of
        None \<Rightarrow> (Some ExternalError, [])
      | Some video \<Rightarrow> clips_loop lib video 1 viral_clips [])"

section \<open>Vocabulary for the statements about the merge\<close>

text \<open>
  The addresses of the word stamps of a segment and of a chunk transcript, a word stamp
  moved by an offset, the word stamps of a segment as the store holds them, and the state
  in which the merge loop starts.
\<close>

definition segment_addrs :: "segment \<Rightarrow> addr list" where
  "segment_addrs s = (case seg_words s of None \<Rightarrow> [] | Some ws \<Rightarrow> ws)"

definition transcript_addrs :: "transcript \<Rightarrow> addr list" where
  "transcript_addrs t = concat (map segment_addrs (get_segments t))"

definition shift_word :: "real \<Rightarrow> word_stamp \<Rightarrow> word_stamp" where
  "shift_word off w = w\<lparr>w_start := w_start w + off, w_end := w_end w + off\<rparr>"


definition read_words :: "store \<Rightarrow> segment \<Rightarrow> word_stamp list" where
  "read_words h s = map h (segment_addrs s)"

definition init_state :: "store \<Rightarrow> merge_state" where
  "init_state h = \<lparr>heap = h, merged_text = [], merged_segments = [], segment_id = 0,
                 current_offset = 0\<rparr>"


section \<open>Example data\<close>

text \<open>
  Two chunk transcripts of a 1200 second asset cut at 900 seconds, each with one segment
  and one word stamp, and a chunk whose only segment carries the chunk-local id 7.
\<close>

definition example_store :: store where
  "example_store a =
     (if a = 0 then \<lparr>w_word = ''lions'', w_start = 10, w_end = 12\<rparr>
      else \<lparr>w_word = ''sleep'', w_start = 5, w_end = 7\<rparr>)"

definition chunk0 :: transcript where
  "chunk0 = \<lparr>t_task = None, t_language = None, t_duration = Some 900,
      t_text = Some ''lions'',
      t_segments = Some [\<lparr>seg_id = Some 0, seg_start = 10, seg_end = 20,
                          seg_text = ''lions'', seg_words = Some [0]\<rparr>]\<rparr>"

definition chunk1 :: transcript where
  "chunk1 = \<lparr>t_task = None, t_language = None, t_duration = Some 300,
      t_text = Some ''sleep'',
      t_segments = Some [\<lparr>seg_id = Some 0, seg_start = 5, seg_end = 15,
                          seg_text = ''sleep'', seg_words = Some [1]\<rparr>]\<rparr>"

definition chunk_late_ids :: transcript where
  "chunk_late_ids = \<lparr>t_task = None, t_language = None, t_duration = Some 300,
      t_text = Some ''sleep'',
      t_segments = Some [\<lparr>seg_id = Some 7, seg_start = 5, seg_end = 15,
                          seg_text = ''sleep'', seg_words = None\<rparr>]\<rparr>"

text \<open>
  A 1200 second asset, so two windows of 900 and 300 seconds, and a transcription service
  that fails on the first window and returns \<open>chunk1\<close> for the second; the same asset
  without an audio track; a library that writes every audio file; a candidate of 25
  seconds, one with a single timecode and one of 40 seconds; the candidate of the
  repository's test fixture, 2 seconds long with the length score 10 (its hook text without
  the two emoji); a library for which every cut and every write of a clip succeeds.
\<close>

definition asset_1200 :: video where
  "asset_1200 = \<lparr>duration = 1200, clip_w = 1920, clip_h = 1080, has_audio = True\<rparr>"

definition first_window_fails :: "audio_file \<Rightarrow> transcript option" where
  "first_window_fails f =
     (case f of
        Temp_audio_full \<Rightarrow> None
      | Temp_audio_segment i start_time end_time \<Rightarrow> if i = 1 then Some chunk1 else None)"

text \<open>
  A 2000 second asset, so three windows of 900, 900 and 200 seconds, and a service that
  fails on the first window and returns \<open>chunk0\<close> and \<open>chunk1\<close> for the other two.
\<close>

definition asset_2000 :: video where
  "asset_2000 = \<lparr>duration = 2000, clip_w = 1920, clip_h = 1080, has_audio = True\<rparr>"

definition first_of_three_fails :: "audio_file \<Rightarrow> transcript option" where
  "first_of_three_fails f =
     (case f of
        Temp_audio_full \<Rightarrow> None
      | Temp_audio_segment i start_time end_time \<Rightarrow>
          if i = 1 then Some chunk0 else if i = 2 then Some chunk1 else None)"

definition all_written :: "audio_file \<Rightarrow> bool" where
  "all_written f = True"

definition silent_1200 :: video where
  "silent_1200 = \<lparr>duration = 1200, clip_w = 1920, clip_h = 1080, has_audio = False\<rparr>"

definition no_analysis :: clip_analysis where
  "no_analysis = \<lparr>animal_facts = [], context_and_setup = [], emotional_engagement = [],
     follow_up = [], educational_entertainment_balance = []\<rparr>"

definition clip_0_25 :: clip where
  "clip_0_25 = \<lparr>timecodes = [0, 25], description = ''short'', entertainment_score = 8,
     educational_score = 9, clarity_score = 9, shareability_score = 8, length_score = 8,
     analysis = no_analysis, text_hook = ''hook''\<rparr>"

definition clip_0_2 :: clip where
  "clip_0_2 = \<lparr>timecodes = [0, 2], description = ''Interesting lion facts'',
     entertainment_score = 8, educational_score = 9, clarity_score = 9,
     shareability_score = 8, length_score = 10,
     analysis = \<lparr>animal_facts = [''Lions sleep up to 20 hours a day''],
       context_and_setup = ''Clear introduction to lion facts'',
       emotional_engagement = ''Surprising fact delivery'',
       follow_up = ''Engaging conclusion'',
       educational_entertainment_balance = ''Perfect mix of education and fun''\<rparr>,
     text_hook = ''Did you know lions are professional nappers? ''\<rparr>"

definition all_ok :: moviepy where
  "all_ok = \<lparr>subclip_ok = (\<lambda>start end_time. True), write_ok = (\<lambda>i. True)\<rparr>"

definition clip_malformed :: clip where
  "clip_malformed = \<lparr>timecodes = [5], description = ''one timecode'', entertainment_score = 8,
     educational_score = 9, clarity_score = 9, shareability_score = 8, length_score = 10,
     analysis = no_analysis, text_hook = ''hook''\<rparr>"

definition clip_10_50 :: clip where
  "clip_10_50 = \<lparr>timecodes = [10, 50], description = ''forty seconds'', entertainment_score = 8,
     educational_score = 9, clarity_score = 9, shareability_score = 8, length_score = 10,
     analysis = no_analysis, text_hook = ''hook''\<rparr>"

section \<open>The loops of the merge\<close>

lemma adjust_words_other: "a \<notin> set as \<Longrightarrow> adjust_words off as h a = h a"
  by (induction as arbitrary: h) auto

lemma adjust_words_hit:
  "distinct as \<Longrightarrow> a \<in> set as \<Longrightarrow> adjust_words off as h a = shift_word off (h a)"
  by (induction as arbitrary: h) (auto simp: adjust_words_other shift_word_def)

lemma adjust_segment_sel [simp]:
  "current_offset (adjust_segment s st) = current_offset st"
  "merged_text (adjust_segment s st) = merged_text st"
  "segment_id (adjust_segment s st) = Suc (segment_id st)"
  "merged_segments (adjust_segment s st) = merged_segments st @
     [s\<lparr>seg_id := Some (int (segment_id st)),
        seg_start := seg_start s + current_offset st,
        seg_end := seg_end s + current_offset st\<rparr>]"
  "heap (adjust_segment s st) = adjust_words (current_offset st) (segment_addrs s) (heap st)"
  by (simp_all add: adjust_segment_def Let_def segment_addrs_def split: option.splits)

lemma fold_adjust_offset [simp]:
  "current_offset (fold adjust_segment ss st) = current_offset st"
  by (induction ss arbitrary: st) simp_all

lemma fold_adjust_text [simp]:
  "merged_text (fold adjust_segment ss st) = merged_text st"
  by (induction ss arbitrary: st) simp_all

lemma fold_adjust_id [simp]:
  "segment_id (fold adjust_segment ss st) = segment_id st + length ss"
  by (induction ss arbitrary: st) simp_all

lemma fold_adjust_ids:
  "map seg_id (merged_segments (fold adjust_segment ss st)) =
     map seg_id (merged_segments st) @
     map (\<lambda>k. Some (int k)) [segment_id st ..< segment_id st + length ss]"
  by (induction ss arbitrary: st) (simp_all add: upt_rec)

lemma fold_adjust_start:
  "map seg_start (merged_segments (fold adjust_segment ss st)) =
     map seg_start (merged_segments st) @ map (\<lambda>s. seg_start s + current_offset st) ss"
  by (induction ss arbitrary: st) simp_all

lemma fold_adjust_end:
  "map seg_end (merged_segments (fold adjust_segment ss st)) =
     map seg_end (merged_segments st) @ map (\<lambda>s. seg_end s + current_offset st) ss"
  by (induction ss arbitrary: st) simp_all

lemma fold_adjust_words:
  "map seg_words (merged_segments (fold adjust_segment ss st)) =
     map seg_words (merged_segments st) @ map seg_words ss"
  by (induction ss arbitrary: st) simp_all

lemma fold_adjust_heap_other:
  "a \<notin> set (concat (map segment_addrs ss)) \<Longrightarrow> heap (fold adjust_segment ss st) a = heap st a"
  by (induction ss arbitrary: st) (simp_all add: adjust_words_other)

lemma fold_adjust_heap_hit:
  "distinct (concat (map segment_addrs ss)) \<Longrightarrow> a \<in> set (concat (map segment_addrs ss)) \<Longrightarrow>
   heap (fold adjust_segment ss st) a = shift_word (current_offset st) (heap st a)"
proof (induction ss arbitrary: st)
  case Nil
  then show ?case by simp
next
  case (Cons s ss)
  show ?case
  proof (cases "a \<in> set (segment_addrs s)")
    case True
    with Cons.prems have "a \<notin> set (concat (map segment_addrs ss))" by auto
    then have "heap (fold adjust_segment ss (adjust_segment s st)) a = heap (adjust_segment s st) a"
      by (rule fold_adjust_heap_other)
    with True Cons.prems show ?thesis by (simp add: adjust_words_hit)
  next
    case False
    with Cons.prems have "a \<in> set (concat (map segment_addrs ss))"
      and "distinct (concat (map segment_addrs ss))" by auto
    with Cons.IH [of "adjust_segment s st"] False show ?thesis
      by (simp add: adjust_words_other)
  qed
qed


lemma merge_loop_ok:
  "i + length ts \<le> length ds \<Longrightarrow> \<exists>st'. merge_loop i ts ds st = (None, st')"
  by (induction ts arbitrary: i st) (simp_all add: Let_def)

lemma upt_shift: "map f [0..<Suc n] = f 0 # map (\<lambda>k. f (Suc k)) [0..<n]"
  by (simp add: upt_rec [of 0] map_Suc_upt [symmetric] del: upt_Suc)

lemma take_drop_step:
  "i < length ds \<Longrightarrow> sum_list (take (Suc k) (drop i ds)) = ds ! i + sum_list (take k (drop (Suc i) ds))"
  by (simp add: Cons_nth_drop_Suc [symmetric])

lemma merge_loop_start:
  "i + length ts \<le> length ds \<Longrightarrow> merge_loop i ts ds st = (e, st') \<Longrightarrow>
   map seg_start (merged_segments st') = map seg_start (merged_segments st) @
     concat (map (\<lambda>k. map (\<lambda>s. seg_start s + (current_offset st + sum_list (take k (drop i ds))))
                          (get_segments (ts ! k))) [0..<length ts])"
proof (induction ts arbitrary: i st)
  case Nil
  then show ?case by simp
next
  case (Cons t ts)
  then have i: "i < length ds" and le: "Suc i + length ts \<le> length ds" by simp_all
  let ?st2 = "fold adjust_segment (get_segments t) (st\<lparr>merged_text := merged_text st @ get_text t @ '' ''\<rparr>)"
  let ?st3 = "?st2\<lparr>current_offset := current_offset ?st2 + ds ! i\<rparr>"
  from Cons.prems i have run: "merge_loop (Suc i) ts ds ?st3 = (e, st')"
    by (simp add: Let_def)
  show ?case
    unfolding Cons.IH [OF le run]
    by (simp add: upt_shift fold_adjust_start take_drop_step [OF i] add.assoc del: upt_Suc)
qed


lemma merge_loop_end:
  "i + length ts \<le> length ds \<Longrightarrow> merge_loop i ts ds st = (e, st') \<Longrightarrow>
   map seg_end (merged_segments st') = map seg_end (merged_segments st) @
     concat (map (\<lambda>k. map (\<lambda>s. seg_end s + (current_offset st + sum_list (take k (drop i ds))))
                          (get_segments (ts ! k))) [0..<length ts])"
proof (induction ts arbitrary: i st)
  case Nil
  then show ?case by simp
next
  case (Cons t ts)
  then have i: "i < length ds" and le: "Suc i + length ts \<le> length ds" by simp_all
  let ?st2 = "fold adjust_segment (get_segments t) (st\<lparr>merged_text := merged_text st @ get_text t @ '' ''\<rparr>)"
  let ?st3 = "?st2\<lparr>current_offset := current_offset ?st2 + ds ! i\<rparr>"
  from Cons.prems i have run: "merge_loop (Suc i) ts ds ?st3 = (e, st')"
    by (simp add: Let_def)
  show ?case
    unfolding Cons.IH [OF le run]
    by (simp add: upt_shift fold_adjust_end take_drop_step [OF i] add.assoc del: upt_Suc)
qed

lemma merge_loop_words:
  "merge_loop i ts ds st = (None, st') \<Longrightarrow>
   map seg_words (merged_segments st') = map seg_words (merged_segments st) @
     map seg_words (concat (map get_segments ts))"
  by (induction ts arbitrary: i st) (auto simp: Let_def fold_adjust_words split: if_splits)

lemma merge_loop_ids:
  "merge_loop i ts ds st = (None, st') \<Longrightarrow>
   map seg_id (merged_segments st') = map seg_id (merged_segments st) @
     map (\<lambda>k. Some (int k))
       [segment_id st ..< segment_id st + length (concat (map get_segments ts))]"
proof (induction ts arbitrary: i st)
  case Nil
  then show ?case by simp
next
  case (Cons t ts)
  let ?st2 = "fold adjust_segment (get_segments t) (st\<lparr>merged_text := merged_text st @ get_text t @ '' ''\<rparr>)"
  let ?st3 = "?st2\<lparr>current_offset := current_offset ?st2 + ds ! i\<rparr>"
  from Cons.prems have run: "merge_loop (Suc i) ts ds ?st3 = (None, st')"
    by (simp add: Let_def split: if_splits)
  have split_range: "[n ..< n + (a + b)] = [n ..< n + a] @ [n + a ..< n + a + b]" for n a b :: nat
    by (metis add.assoc le_add1 upt_add_eq_append)
  show ?case
    unfolding Cons.IH [OF run]
    by (simp add: fold_adjust_ids split_range)
qed

lemma merge_loop_text:
  "merge_loop i ts ds st = (None, st') \<Longrightarrow>
   merged_text st' = merged_text st @ concat (map (\<lambda>t. get_text t @ '' '') ts)"
  by (induction ts arbitrary: i st) (auto simp: Let_def split: if_splits)

lemma merge_loop_heap_other:
  "a \<notin> set (concat (map transcript_addrs ts)) \<Longrightarrow> merge_loop i ts ds st = (e, st') \<Longrightarrow>
   heap st' a = heap st a"
  by (induction ts arbitrary: i st)
     (auto simp: Let_def transcript_addrs_def fold_adjust_heap_other split: if_splits)

lemma merge_loop_heap_hit:
  "distinct (concat (map transcript_addrs ts)) \<Longrightarrow> i + length ts \<le> length ds \<Longrightarrow>
   merge_loop i ts ds st = (e, st') \<Longrightarrow> k < length ts \<Longrightarrow>
   a \<in> set (transcript_addrs (ts ! k)) \<Longrightarrow>
   heap st' a = shift_word (current_offset st + sum_list (take k (drop i ds))) (heap st a)"
proof (induction ts arbitrary: i st k)
  case Nil
  then show ?case by simp
next
  case (Cons t ts)
  then have i: "i < length ds" and le: "Suc i + length ts \<le> length ds" by simp_all
  let ?st1 = "st\<lparr>merged_text := merged_text st @ get_text t @ '' ''\<rparr>"
  let ?st2 = "fold adjust_segment (get_segments t) ?st1"
  let ?st3 = "?st2\<lparr>current_offset := current_offset ?st2 + ds ! i\<rparr>"
  from Cons.prems i have run: "merge_loop (Suc i) ts ds ?st3 = (e, st')"
    by (simp add: Let_def)
  from Cons.prems have d_t: "distinct (transcript_addrs t)"
    and d_ts: "distinct (concat (map transcript_addrs ts))"
    and disj: "set (transcript_addrs t) \<inter> set (concat (map transcript_addrs ts)) = {}"
    by simp_all
  show ?case
  proof (cases k)
    case 0
    with Cons.prems have a: "a \<in> set (transcript_addrs t)" by simp
    with disj have "a \<notin> set (concat (map transcript_addrs ts))" by blast
    then have "heap st' a = heap ?st3 a"
      using run by (rule merge_loop_heap_other)
    also have "\<dots> = shift_word (current_offset st) (heap st a)"
      using fold_adjust_heap_hit [of "get_segments t" a ?st1] d_t a
      by (simp add: transcript_addrs_def)
    finally show ?thesis using 0 by simp
  next
    case (Suc k')
    with Cons.prems have k': "k' < length ts" and a: "a \<in> set (transcript_addrs (ts ! k'))"
      by simp_all
    then have "a \<in> set (concat (map transcript_addrs ts))" by auto
    with disj have "a \<notin> set (transcript_addrs t)" by blast
    then have same: "heap ?st3 a = heap st a"
      by (simp add: fold_adjust_heap_other transcript_addrs_def)
    from Cons.IH [OF d_ts le run k' a] same Suc show ?thesis
      by (simp add: take_drop_step [OF i] add.assoc)
  qed
qed



lemma merge_many:
  assumes "2 \<le> length ts" and "length ts \<le> length ds"
  obtains st' where "merge_loop 0 ts ds (init_state h) = (None, st')"
    and "merge_transcript_segments h ts ds =
          (heap st', Inr \<lparr>t_task = Some (case t_task (ts ! 0) of None \<Rightarrow> ''transcribe'' | Some v \<Rightarrow> v),
                   t_language = Some (case t_language (ts ! 0) of None \<Rightarrow> ''english'' | Some v \<Rightarrow> v),
                   t_duration = Some (sum_list ds),
                   t_text = Some (merged_text st'),
                   t_segments = Some (merged_segments st')\<rparr>)"
proof -
  from assms(2) obtain st' where run: "merge_loop 0 ts ds (init_state h) = (None, st')"
    using merge_loop_ok [of 0 ts ds "init_state h"] by auto
  moreover from assms(1) have "ts \<noteq> []" "length ts \<noteq> 1" by auto
  ultimately show ?thesis
    using that [of st'] by (simp add: merge_transcript_segments_def init_state_def)
qed

lemma map_nth_upt: "map (\<lambda>i. f (ts ! i)) [0..<length ts] = map f ts"
  by (rule nth_equalityI) simp_all


lemma shift_word_zero: "shift_word 0 w = w"
  by (simp add: shift_word_def)


lemma read_words_cong:
  "seg_words s' = seg_words s \<Longrightarrow> read_words h s' = read_words h s"
  by (simp add: read_words_def segment_addrs_def)

lemma map_read_words_cong:
  "map seg_words xs = map seg_words ys \<Longrightarrow> map (read_words h) xs = map (read_words h) ys"
proof (induction xs arbitrary: ys)
  case Nil
  then show ?case by simp
next
  case (Cons x xs)
  then obtain y ys' where ys: "ys = y # ys'" by (cases ys) auto
  with Cons.prems have hd: "seg_words x = seg_words y"
    and tl: "map seg_words xs = map seg_words ys'" by simp_all
  from Cons.IH [OF tl] read_words_cong [OF hd] ys show ?case by simp
qed

lemma three_cases:
  obtains "ts = []" | c where "ts = [c]" | "2 \<le> length ts"
proof (cases ts)
  case Nil
  then show ?thesis using that by simp
next
  case (Cons a as)
  then show ?thesis using that by (cases as) simp_all
qed

lemma shift_word_zero_fun: "shift_word 0 = (\<lambda>w. w)"
  by (rule ext) (simp add: shift_word_def)

section \<open>Claims about the merge\<close>

text \<open>
  C8. The merge is the identity at the small ends of its domain: no chunk transcripts give
  the empty dictionary, and a single chunk transcript is returned as it is, whatever the
  list of durations holds. The store of word stamps is untouched in both cases.
\<close>

theorem merge_identity_small:
  "merge_transcript_segments h [] ds = (h, Inr empty_dict) \<and>
   merge_transcript_segments h [c] ds = (h, Inr c)"
  by (simp add: merge_transcript_segments_def)

text \<open>
  C2. For chunk transcripts with a declared duration each and no word stamp shared between
  two segments, the merge returns a transcript whose segments are those of the chunks in
  order, the start and the end of every segment of chunk \<open>i\<close> moved by the sum of the
  durations of the chunks before it, and so is every word stamp inside these segments, read
  from the store after the call.
\<close>

theorem merge_offsets:
  assumes len: "length ts \<le> length ds"
    and dist: "distinct (concat (map transcript_addrs ts))"
  shows "\<exists>h' m. merge_transcript_segments h ts ds = (h', Inr m) \<and>
     map seg_start (get_segments m) =
       concat (map (\<lambda>i. map (\<lambda>s. seg_start s + sum_list (take i ds)) (get_segments (ts ! i)))
                [0..<length ts]) \<and>
     map seg_end (get_segments m) =
       concat (map (\<lambda>i. map (\<lambda>s. seg_end s + sum_list (take i ds)) (get_segments (ts ! i)))
                [0..<length ts]) \<and>
     map (read_words h') (get_segments m) =
       concat (map (\<lambda>i. map (\<lambda>s. map (shift_word (sum_list (take i ds))) (read_words h s))
                         (get_segments (ts ! i)))
                [0..<length ts])"
proof (cases ts rule: three_cases)
  case 1
  then show ?thesis
    by (simp add: merge_transcript_segments_def empty_dict_def get_segments_def)
next
  case (2 c)
  then show ?thesis
    by (simp add: merge_transcript_segments_def shift_word_zero_fun)
next
  case 3
  from merge_many [OF 3 len, of h] obtain st' where
    run: "merge_loop 0 ts ds (init_state h) = (None, st')" and
    res: "merge_transcript_segments h ts ds =
        (heap st', Inr \<lparr>t_task = Some (case t_task (ts ! 0) of None \<Rightarrow> ''transcribe'' | Some v \<Rightarrow> v),
                 t_language = Some (case t_language (ts ! 0) of None \<Rightarrow> ''english'' | Some v \<Rightarrow> v),
                 t_duration = Some (sum_list ds),
                 t_text = Some (merged_text st'),
                 t_segments = Some (merged_segments st')\<rparr>)"
    by blast
  from len have len0: "0 + length ts \<le> length ds" by simp
  have st: "map seg_start (merged_segments st') =
      concat (map (\<lambda>i. map (\<lambda>s. seg_start s + sum_list (take i ds)) (get_segments (ts ! i)))
              [0..<length ts])"
    using merge_loop_start [OF len0 run] by (simp add: init_state_def)
  have en: "map seg_end (merged_segments st') =
      concat (map (\<lambda>i. map (\<lambda>s. seg_end s + sum_list (take i ds)) (get_segments (ts ! i)))
              [0..<length ts])"
    using merge_loop_end [OF len0 run] by (simp add: init_state_def)
  have "map seg_words (merged_segments st') = map seg_words (concat (map get_segments ts))"
    using merge_loop_words [OF run] by (simp add: init_state_def)
  then have "map (read_words (heap st')) (merged_segments st') =
      map (read_words (heap st')) (concat (map get_segments ts))"
    by (rule map_read_words_cong)
  also have "\<dots> = concat (map (\<lambda>t. map (read_words (heap st')) (get_segments t)) ts)"
    by (simp add: map_concat comp_def)
  also have "\<dots> = concat (map (\<lambda>i. map (read_words (heap st')) (get_segments (ts ! i)))
              [0..<length ts])"
    by (simp only: map_nth_upt [of "\<lambda>t. map (read_words (heap st')) (get_segments t)" ts])
  also have "\<dots> = concat (map (\<lambda>i. map (\<lambda>s. map (shift_word (sum_list (take i ds))) (read_words h s))
                       (get_segments (ts ! i))) [0..<length ts])"
  proof -
    have "read_words (heap st') s = map (shift_word (sum_list (take i ds))) (read_words h s)"
      if i: "i < length ts" and s: "s \<in> set (get_segments (ts ! i))" for i s
    proof -
      have "heap st' a = shift_word (sum_list (take i ds)) (h a)"
        if "a \<in> set (segment_addrs s)" for a
      proof -
        from that s have "a \<in> set (transcript_addrs (ts ! i))"
          by (auto simp: transcript_addrs_def)
        from merge_loop_heap_hit [OF dist len0 run i this] show ?thesis
          by (simp add: init_state_def)
      qed
      then show ?thesis by (simp add: read_words_def)
    qed
    then have "map (\<lambda>i. map (read_words (heap st')) (get_segments (ts ! i))) [0..<length ts] =
        map (\<lambda>i. map (\<lambda>s. map (shift_word (sum_list (take i ds))) (read_words h s))
                       (get_segments (ts ! i))) [0..<length ts]"
      by (intro map_cong refl) simp_all
    then show ?thesis by (rule arg_cong)
  qed
  finally have wd: "map (read_words (heap st')) (merged_segments st') =
     concat (map (\<lambda>i. map (\<lambda>s. map (shift_word (sum_list (take i ds))) (read_words h s))
                       (get_segments (ts ! i))) [0..<length ts])" .
  show ?thesis
    unfolding res using st en wd by (simp add: get_segments_def)
qed

theorem merge_offsets_witness:
  "\<exists>h' m. merge_transcript_segments example_store [chunk0, chunk1] [900, 300] = (h', Inr m) \<and>
     map seg_start (get_segments m) = [10, 905] \<and>
     map seg_end (get_segments m) = [20, 915] \<and>
     map (read_words h') (get_segments m) =
       [[\<lparr>w_word = ''lions'', w_start = 10, w_end = 12\<rparr>],
        [\<lparr>w_word = ''sleep'', w_start = 905, w_end = 907\<rparr>]]"
  using merge_offsets [of "[chunk0, chunk1]" "[900, 300]" example_store]
  by (simp add: chunk0_def chunk1_def example_store_def get_segments_def transcript_addrs_def
      segment_addrs_def read_words_def shift_word_def)

text \<open>
  C7 (as amended). When the merge is given no chunk or at least two, with a duration for
  each, the ids of the merged segments are 0, 1, ..., N - 1 in merge order, N the number of
  segments of all chunks, whatever ids the chunks carried. A single chunk is returned as
  it is and keeps its own ids.
\<close>

theorem merge_ids_contiguous:
  assumes "length ts \<noteq> 1" and "length ts \<le> length ds"
  shows "\<exists>h' m. merge_transcript_segments h ts ds = (h', Inr m) \<and>
     length (get_segments m) = length (concat (map get_segments ts)) \<and>
     map seg_id (get_segments m) =
       map (\<lambda>k. Some (int k)) [0..<length (concat (map get_segments ts))]"
proof (cases ts rule: three_cases)
  case 1
  then show ?thesis
    by (simp add: merge_transcript_segments_def empty_dict_def get_segments_def)
next
  case (2 c)
  with assms show ?thesis by simp
next
  case 3
  from merge_many [OF 3 assms(2), of h] obtain st' where
    run: "merge_loop 0 ts ds (init_state h) = (None, st')" and
    res: "merge_transcript_segments h ts ds =
        (heap st', Inr \<lparr>t_task = Some (case t_task (ts ! 0) of None \<Rightarrow> ''transcribe'' | Some v \<Rightarrow> v),
                 t_language = Some (case t_language (ts ! 0) of None \<Rightarrow> ''english'' | Some v \<Rightarrow> v),
                 t_duration = Some (sum_list ds),
                 t_text = Some (merged_text st'),
                 t_segments = Some (merged_segments st')\<rparr>)"
    by blast
  have ids: "map seg_id (merged_segments st') =
      map (\<lambda>k. Some (int k)) [0..<length (concat (map get_segments ts))]"
    using merge_loop_ids [OF run] by (simp add: init_state_def)
  then have "length (map seg_id (merged_segments st')) =
      length (map (\<lambda>k. Some (int k)) [0..<length (concat (map get_segments ts))])"
    by (rule arg_cong)
  then have "length (merged_segments st') = length (concat (map get_segments ts))"
    by (simp del: length_concat)
  with ids show ?thesis
    unfolding res by (simp add: get_segments_def del: length_concat)
qed

theorem merge_ids_contiguous_witness:
  "\<exists>h' m. merge_transcript_segments example_store [chunk0, chunk_late_ids] [900, 300] = (h', Inr m) \<and>
     length (get_segments m) = 2 \<and>
     map seg_id (get_segments m) = [Some 0, Some 1]"
  using merge_ids_contiguous [of "[chunk0, chunk_late_ids]" "[900, 300]" example_store]
  by (simp add: chunk0_def chunk_late_ids_def get_segments_def numeral_2_eq_2)

text \<open>
  C7 as stated fails for a single chunk: its segment keeps the chunk-local id 7.
\<close>

theorem merge_single_chunk_keeps_ids:
  "\<exists>h' m. merge_transcript_segments example_store [chunk_late_ids] [300] = (h', Inr m) \<and>
     length (get_segments m) = 1 \<and>
     map seg_id (get_segments m) = [Some 7] \<and>
     map seg_id (get_segments m) \<noteq> map (\<lambda>k. Some (int k)) [0..<length (get_segments m)]"
  by (simp add: merge_transcript_segments_def chunk_late_ids_def get_segments_def)

text \<open>
  C10. Given two or more chunks, the merge changes its input: every merged segment holds
  the very list of word stamps of the segment it was copied from, and after the call each
  word stamp of chunk \<open>i\<close> has its start and end increased by the offset of that chunk; where
  that offset is not zero the word stamp of the caller is no longer what it was.
\<close>

theorem merge_mutates_input_words:
  assumes many: "2 \<le> length ts" and len: "length ts \<le> length ds"
    and dist: "distinct (concat (map transcript_addrs ts))"
  shows "\<exists>h' m. merge_transcript_segments h ts ds = (h', Inr m) \<and>
     map seg_words (get_segments m) = map seg_words (concat (map get_segments ts)) \<and>
     (\<forall>i<length ts. \<forall>a\<in>set (transcript_addrs (ts ! i)).
        w_start (h' a) = w_start (h a) + sum_list (take i ds) \<and>
        w_end (h' a) = w_end (h a) + sum_list (take i ds) \<and>
        w_word (h' a) = w_word (h a) \<and>
        (sum_list (take i ds) \<noteq> 0 \<longrightarrow> h' a \<noteq> h a))"
proof -
  from merge_many [OF many len, of h] obtain st' where
    run: "merge_loop 0 ts ds (init_state h) = (None, st')" and
    res: "merge_transcript_segments h ts ds =
        (heap st', Inr \<lparr>t_task = Some (case t_task (ts ! 0) of None \<Rightarrow> ''transcribe'' | Some v \<Rightarrow> v),
                 t_language = Some (case t_language (ts ! 0) of None \<Rightarrow> ''english'' | Some v \<Rightarrow> v),
                 t_duration = Some (sum_list ds),
                 t_text = Some (merged_text st'),
                 t_segments = Some (merged_segments st')\<rparr>)"
    by blast
  from len have len0: "0 + length ts \<le> length ds" by simp
  have shared: "map seg_words (merged_segments st') = map seg_words (concat (map get_segments ts))"
    using merge_loop_words [OF run] by (simp add: init_state_def)
  have moved: "heap st' a = shift_word (sum_list (take i ds)) (h a)"
    if "i < length ts" and "a \<in> set (transcript_addrs (ts ! i))" for i a
    using merge_loop_heap_hit [OF dist len0 run that] by (simp add: init_state_def)
  have changed: "shift_word off w \<noteq> w" if "off \<noteq> 0" for off w
  proof
    assume "shift_word off w = w"
    then have "w_start (shift_word off w) = w_start w" by simp
    with that show False by (simp add: shift_word_def)
  qed
  show ?thesis
    unfolding res using shared moved changed
    by (simp add: get_segments_def shift_word_def del: map_concat)
qed

theorem merge_mutates_input_words_witness:
  "\<exists>h' m. merge_transcript_segments example_store [chunk0, chunk1] [900, 300] = (h', Inr m) \<and>
     map seg_words (get_segments m) = [Some [0], Some [1]] \<and>
     w_start (h' 0) = 10 \<and> w_end (h' 0) = 12 \<and>
     w_start (h' 1) = 905 \<and> w_end (h' 1) = 907 \<and>
     h' 1 \<noteq> example_store 1"
proof -
  let ?ts = "[chunk0, chunk1]" and ?ds = "[900, 300 :: real]"
  have addrs: "transcript_addrs chunk0 = [0]" "transcript_addrs chunk1 = [1]"
    by (simp_all add: chunk0_def chunk1_def get_segments_def transcript_addrs_def
        segment_addrs_def)
  have pre: "2 \<le> length ?ts" "length ?ts \<le> length ?ds"
    "distinct (concat (map transcript_addrs ?ts))"
    by (simp_all add: addrs)
  from merge_mutates_input_words [OF pre, of example_store] obtain h' m where
    res: "merge_transcript_segments example_store ?ts ?ds = (h', Inr m)" and
    shared: "map seg_words (get_segments m) = map seg_words (concat (map get_segments ?ts))" and
    moved: "\<forall>i<length ?ts. \<forall>a\<in>set (transcript_addrs (?ts ! i)).
        w_start (h' a) = w_start (example_store a) + sum_list (take i ?ds) \<and>
        w_end (h' a) = w_end (example_store a) + sum_list (take i ?ds) \<and>
        w_word (h' a) = w_word (example_store a) \<and>
        (sum_list (take i ?ds) \<noteq> 0 \<longrightarrow> h' a \<noteq> example_store a)"
    by blast
  from moved [rule_format, of 0 0] have first: "w_start (h' 0) = 10 \<and> w_end (h' 0) = 12"
    by (simp add: addrs example_store_def)
  from moved [rule_format, of 1 1] have second:
    "w_start (h' 1) = 905 \<and> w_end (h' 1) = 907 \<and> h' 1 \<noteq> example_store 1"
    by (simp add: addrs example_store_def)
  from shared have "map seg_words (get_segments m) = [Some [0], Some [1]]"
    by (simp add: chunk0_def chunk1_def get_segments_def)
  with res first second show ?thesis by simp
qed

section \<open>Claims about transcribe_video and split_audio\<close>

lemma write_segments_no_audio:
  "\<not> has_audio video \<Longrightarrow>
   write_segments w video ws temp_files = (if ws = [] then Inr temp_files else Inl AttributeError)"
  by (cases ws) simp_all

lemma split_1200: "split_audio all_written (Some asset_1200) 900 =
    [Temp_audio_segment 0 0 900, Temp_audio_segment 1 900 1200]"
  by (simp add: split_audio_def split_audio_body_def asset_1200_def all_written_def upt_rec)

lemma split_2000: "split_audio all_written (Some asset_2000) 900 =
    [Temp_audio_segment 0 0 900, Temp_audio_segment 1 900 1800, Temp_audio_segment 2 1800 2000]"
  by (simp add: split_audio_def split_audio_body_def asset_2000_def all_written_def upt_rec)

text \<open>
  With three windows of which the first fails, the two transcripts that are left are merged
  with the offsets 0 and 900 of the first two windows, while their windows start at 900
  and 1800.
\<close>

lemma transcribe_video_failed_first_of_three:
  "\<exists>h' m. transcribe_video example_store all_written (Some asset_2000) first_of_three_fails =
            (h', Some m) \<and>
     map seg_start (get_segments m) = [10, 905] \<and>
     map seg_end (get_segments m) = [20, 915] \<and>
     t_duration m = Some 2000"
proof -
  have total: "duration asset_2000 = 2000"
    by (simp add: asset_2000_def)
  show ?thesis
    by (simp add: transcribe_video_def split_2000 total first_of_three_fails_def Let_def
        merge_transcript_segments_def chunk0_def chunk1_def get_segments_def get_text_def)
qed

text \<open>
  C1. The code at the input the claim names: two windows, the first fails and the second
  succeeds. The list of transcripts then has one element, which the merge returns as it
  is: the segment of the second window keeps its chunk-local times 5 and 15 instead of 905
  and 915, although the second window starts at 900.
\<close>

theorem transcribe_video_failed_first_window:
  "transcribe_video example_store all_written (Some asset_1200) first_window_fails =
     (example_store, Some chunk1) \<and>
   map seg_start (get_segments chunk1) = [5] \<and>
   map seg_end (get_segments chunk1) = [15]"
  by (simp add: transcribe_video_def split_1200 first_window_fails_def Let_def
      merge_transcript_segments_def chunk1_def get_segments_def)

text \<open>
  C9 (as amended). \<^verbatim>\<open>split_audio\<close> has no error of its own and validates neither argument; it
  answers with the empty list, which its caller reports as a failure to split: for a file
  that cannot be opened, for a video without audio, and for a segment length that is zero
  or negative and below a non-negative duration.
\<close>

theorem split_audio_returns_empty_list:
  "split_audio w None n = [] \<and>
   (\<not> has_audio v \<longrightarrow> split_audio w (Some v) n = []) \<and>
   (0 \<le> duration v \<and> n \<le> 0 \<and> of_int n < duration v \<longrightarrow> split_audio w (Some v) n = [])"
proof (intro conjI impI)
  show "split_audio w None n = []"
    by (simp add: split_audio_def split_audio_body_def)
next
  assume "\<not> has_audio v"
  then show "split_audio w (Some v) n = []"
    by (simp add: split_audio_def split_audio_body_def write_segments_no_audio)
next
  assume a: "0 \<le> duration v \<and> n \<le> 0 \<and> of_int n < duration v"
  show "split_audio w (Some v) n = []"
  proof (cases "n = 0")
    case True
    with a show ?thesis by (simp add: split_audio_def split_audio_body_def)
  next
    case False
    with a have "n < 0" by simp
    with a have "duration v / of_int n \<le> 0"
      by (simp add: divide_nonneg_neg)
    then have "\<lceil>duration v / of_int n\<rceil> \<le> 0"
      by (simp add: ceiling_le_iff)
    with a False show ?thesis by (simp add: split_audio_def split_audio_body_def)
  qed
qed

theorem split_audio_returns_empty_list_witness:
  "split_audio all_written None 900 = [] \<and>
   split_audio all_written (Some silent_1200) 900 = [] \<and>
   split_audio all_written (Some asset_1200) 0 = [] \<and>
   split_audio all_written (Some asset_1200) (- 900) = []"
  using split_audio_returns_empty_list [of all_written 900 silent_1200]
    split_audio_returns_empty_list [of all_written 0 asset_1200]
    split_audio_returns_empty_list [of all_written "- 900" asset_1200]
  by (simp add: silent_1200_def asset_1200_def)

text \<open>
  C9 as stated fails: for a video of 1200 seconds and the segment length -900 nothing is
  raised at all, the loop runs over no window and the empty list is returned; for the
  segment length 0 the division raises ZeroDivisionError, which is caught, and the empty
  list is returned.
\<close>

theorem split_audio_nonpositive_length_returns_list:
  "split_audio_body all_written (Some asset_1200) (- 900) = Inr [] \<and>
   split_audio all_written (Some asset_1200) (- 900) = [] \<and>
   split_audio_body all_written (Some asset_1200) 0 = Inl ZeroDivisionError \<and>
   split_audio all_written (Some asset_1200) 0 = []"
  by (simp add: split_audio_def split_audio_body_def asset_1200_def)

section \<open>Claims about analyze_transcript\<close>

text \<open>
  C3 (as amended). The result of \<^verbatim>\<open>analyze_transcript\<close> is the list of candidates the service
  returned, unchanged and in order: the candidates shorter than 30 seconds are all still
  in it. The minimum of 30 seconds is an instruction of the prompt, not a filter of the
  code.
\<close>

theorem analyze_transcript_returns_service_clips:
  "analyze_transcript transcription (Message_content (Json_object (Some clips))) = clips \<and>
   filter shorter_than_30
     (analyze_transcript transcription (Message_content (Json_object (Some clips)))) =
   filter shorter_than_30 clips"
  by (simp add: analyze_transcript_def)

text \<open>
  C3 as stated fails: a candidate with timecodes 0 and 25 that the service returns is in
  the result.
\<close>

theorem analyze_transcript_keeps_short_clip:
  "clip_0_25 \<in> set (analyze_transcript chunk0 (Message_content (Json_object (Some [clip_0_25]))))
   \<and> shorter_than_30 clip_0_25"
  by (simp add: analyze_transcript_def shorter_than_30_def clip_0_25_def)

text \<open>
  C6 (as amended). The code does not compute a length score: the length score of every
  candidate in the result is the number the reasoning service returned for it, whatever
  the duration of the candidate. The table is an instruction of the prompt only.
\<close>

theorem analyze_transcript_keeps_length_scores:
  "map length_score (analyze_transcript transcription (Message_content (Json_object (Some clips))))
   = map length_score clips"
  by (simp add: analyze_transcript_def)

text \<open>
  C6 as stated fails: the candidate of the test fixture lasts 2 seconds, for which the
  table gives 4, and comes back with the length score 10 of the service.
\<close>

theorem analyze_transcript_short_clip_scores_10:
  "\<exists>c. analyze_transcript chunk0 (Message_content (Json_object (Some [clip_0_2]))) = [c] \<and>
     timecodes c = [0, 2] \<and> length_score c = 10 \<and> length_score c \<noteq> 4"
  by (simp add: analyze_transcript_def clip_0_2_def)

section \<open>Claims about create_vertical_clips\<close>

lemma py_slice_len_le: "py_slice_len n a b \<le> n"
  by (auto simp: py_slice_len_def Let_def)

lemma py_slice_len_inside:
  "0 \<le> a \<Longrightarrow> a \<le> b \<Longrightarrow> b \<le> int n \<Longrightarrow> py_slice_len n a b = nat (b - a)"
  by (auto simp: py_slice_len_def Let_def)

lemma floor_half: "\<lfloor>real n / 2\<rfloor> = int (n div 2)"
  using floor_divide_of_nat_eq [of n 2] by simp

lemma crop_wide:
  assumes "1080 \<le> n"
  shows "crop (n, m) (real n / 2) 1080 = (1080, m)"
proof -
  from assms have pos: "real n / 2 \<noteq> 0" "0 \<le> real n / 2 - 540" "real n / 2 + 540 \<noteq> 0"
    "0 \<le> real n / 2 + 540" by simp_all
  from assms have w: "py_slice_len n (int (n div 2) - 540) (int (n div 2) + 540) = 1080"
    by (subst py_slice_len_inside) auto
  have hgt: "py_slice_len m 0 (int m) = m"
    by (simp add: py_slice_len_def)
  show ?thesis
    using pos w hgt by (simp add: crop_def py_int_def Let_def floor_half)
qed

lemma crop_narrow: "\<exists>k. crop (n, m) x 1080 = (k, m) \<and> k \<le> n"
  by (simp add: crop_def Let_def py_int_def py_slice_len_le) (simp add: py_slice_len_def)

lemma reproject_wide:
  "0 < h \<Longrightarrow> 1080 \<le> w * 1920 div h \<Longrightarrow> reproject (w, h) = Inr (1080, 1920)"
  by (simp add: reproject_def patched_resize_def crop_wide)

lemma reproject_narrow:
  assumes "0 < h" and "0 < w * 1920 div h" and "w * 1920 div h < 1080"
  shows "\<exists>k. reproject (w, h) = Inr (k, 1920) \<and> k < 1080"
proof -
  from crop_narrow [of "w * 1920 div h" 1920 "real (w * 1920 div h) / 2"]
  obtain k where "crop (w * 1920 div h, 1920) (real (w * 1920 div h) / 2) 1080 = (k, 1920)"
    and "k \<le> w * 1920 div h" by blast
  with assms show ?thesis
    by (simp add: reproject_def patched_resize_def)
qed

lemma reproject_zero_width:
  "0 < h \<Longrightarrow> w * 1920 < h \<Longrightarrow> reproject (w, h) = Inl ValueError"
  by (simp add: reproject_def patched_resize_def)

text \<open>
  C4. The code at sources narrower than 9:16. A source of 1080 by 2400 is resized to 864
  by 1920, below the 1080 that the crop asks for; nothing checks this, the crop keeps the
  columns \<^verbatim>\<open>[-108:972]\<close> of 864, and the clip written is 108 by 1920. A source of 480 by 1920
  gives a clip of 300 by 1920. Neither is the 9:16 frame that the comments of lines 502
  to 505 announce, and no error is raised.
\<close>

theorem reproject_narrow_source:
  "1080 * 1920 div 2400 = (864 :: nat) \<and>
   reproject (1080, 2400) = Inr (108, 1920) \<and>
   reproject (480, 1920) = Inr (300, 1920)"
  by (simp add: reproject_def patched_resize_def crop_def py_int_def py_slice_len_def Let_def)

lemma clips_loop_first_failure:
  "k < length cs \<Longrightarrow> vertical_clip lib video (i + k) (cs ! k) = Inl e \<Longrightarrow>
   (\<forall>j<k. \<not> isl (vertical_clip lib video (i + j) (cs ! j))) \<Longrightarrow>
   clips_loop lib video i cs written =
     (Some e, written @ map (\<lambda>j. projr (vertical_clip lib video (i + j) (cs ! j))) [0..<k])"
proof (induction cs arbitrary: i written k)
  case Nil
  then show ?case by simp
next
  case (Cons c cs)
  show ?case
  proof (cases k)
    case 0
    with Cons.prems show ?thesis by simp
  next
    case (Suc k')
    from Cons.prems(3) Suc have "\<not> isl (vertical_clip lib video (i + 0) ((c # cs) ! 0))"
      by blast
    then obtain a where a: "vertical_clip lib video i c = Inr a"
      by (cases "vertical_clip lib video i c") simp_all
    from Cons.prems Suc have k': "k' < length cs"
      and fail: "vertical_clip lib video (Suc i + k') (cs ! k') = Inl e" by simp_all
    have before: "\<forall>j<k'. \<not> isl (vertical_clip lib video (Suc i + j) (cs ! j))"
    proof (intro allI impI)
      fix j assume "j < k'"
      with Suc have "Suc j < k" by simp
      with Cons.prems(3) have "\<not> isl (vertical_clip lib video (i + Suc j) ((c # cs) ! Suc j))"
        by blast
      then show "\<not> isl (vertical_clip lib video (Suc i + j) (cs ! j))" by simp
    qed
    from Cons.IH [OF k' fail before, of "written @ [a]"] a Suc show ?thesis
      by (simp add: upt_shift del: upt_Suc)
  qed
qed

text \<open>
  C5 (as amended). When the clip of candidate \<open>k\<close> (counted from 0) is the first to fail, the
  clips of the candidates before it are written, the error is logged, and no clip of
  candidate \<open>k\<close> or of any later candidate is written.
\<close>

theorem create_vertical_clips_stops_at_first_failure:
  assumes "k < length cs"
    and "vertical_clip lib video (Suc k) (cs ! k) = Inl e"
    and "\<forall>j<k. \<not> isl (vertical_clip lib video (Suc j) (cs ! j))"
  shows "create_vertical_clips lib (Some video) cs =
     (Some e, map (\<lambda>j. projr (vertical_clip lib video (Suc j) (cs ! j))) [0..<k])"
  using clips_loop_first_failure [of k cs lib video 1 e "[]"] assms
  by (simp add: create_vertical_clips_def)

theorem create_vertical_clips_stops_at_first_failure_witness:
  "create_vertical_clips all_ok (Some asset_1200) [clip_10_50, clip_malformed, clip_10_50] =
     (Some ValueError,
      [\<lparr>clip_number = 1, source_window = (10, 50), output_size = (1080, 1920)\<rparr>])"
proof -
  have ok: "vertical_clip all_ok asset_1200 (Suc 0) clip_10_50 =
      Inr \<lparr>clip_number = Suc 0, source_window = (10, 50), output_size = (1080, 1920)\<rparr>"
    using reproject_wide [of 1080 1920]
    by (simp add: vertical_clip_def clip_10_50_def all_ok_def asset_1200_def)
  have bad: "vertical_clip all_ok asset_1200 (Suc (Suc 0)) clip_malformed = Inl ValueError"
    by (simp add: vertical_clip_def clip_malformed_def)
  show ?thesis
    using create_vertical_clips_stops_at_first_failure
      [of 1 "[clip_10_50, clip_malformed, clip_10_50]" all_ok asset_1200 ValueError]
    by (simp add: ok bad numeral_2_eq_2)
qed

text \<open>
  C5 as stated fails: after a candidate whose clip fails, a second candidate whose clip
  would succeed on its own is not extracted.
\<close>

theorem create_vertical_clips_skips_later_candidate:
  "create_vertical_clips all_ok (Some asset_1200) [clip_malformed, clip_10_50] =
     (Some ValueError, []) \<and>
   vertical_clip all_ok asset_1200 2 clip_10_50 =
     Inr \<lparr>clip_number = 2, source_window = (10, 50), output_size = (1080, 1920)\<rparr>"
proof -
  have ok: "vertical_clip all_ok asset_1200 (Suc (Suc 0)) clip_10_50 =
      Inr \<lparr>clip_number = Suc (Suc 0), source_window = (10, 50), output_size = (1080, 1920)\<rparr>"
    using reproject_wide [of 1080 1920]
    by (simp add: vertical_clip_def clip_10_50_def all_ok_def asset_1200_def)
  have bad: "vertical_clip all_ok asset_1200 (Suc 0) clip_malformed = Inl ValueError"
    by (simp add: vertical_clip_def clip_malformed_def)
  show ?thesis
    using ok by (simp add: create_vertical_clips_def bad numeral_2_eq_2)
qed

end
